theory Spec2Isabelle
  imports Main "HOL-Library.Char_ord" "HOL-Library.List_Lexorder" "HOL-Library.Product_Lexorder"
    "HOL-Library.Sublist"
begin

section \<open>Connection records and the connections table\<close>

text \<open>
  The connection data blob of \<^verbatim>\<open>registerConnection\<close>:
  \<^verbatim>\<open>{ endpoint, context: {}, isInitialized: false }\<close>. The context is an opaque
  string-keyed map; it is kept as an association list.
\<close>

record connection_data =
  endpoint :: string
  conn_context :: "(string \<times> string) list"
  isInitialized :: bool

text \<open>
  A connection object. The value built by \<^verbatim>\<open>registerConnection\<close> has only
  \<^verbatim>\<open>id\<close> and \<^verbatim>\<open>data\<close>; the item written to the table carries
  \<^verbatim>\<open>createdAt\<close> and, when the lease is enabled, \<^verbatim>\<open>ttl\<close>. A field a JS object
  does not have is \<open>None\<close>.
\<close>

record connection =
  conn_id :: string
  data :: connection_data
  ttl :: "nat option"
  createdAt :: "string option"

text \<open>The value thrown by \<^verbatim>\<open>hydrateConnection\<close>, with the connection id of its message.\<close>

datatype hydrate_error = ConnectionNotFoundError string

text \<open>The \<^verbatim>\<open>Connections\<close> table: one item per key \<^verbatim>\<open>id\<close>.\<close>

type_synonym connections_table = "string \<rightharpoonup> connection"

text \<open>\<^verbatim>\<open>HydrateConnectionOptions\<close>; a field left out takes the default of the destructuring.\<close>

record hydrate_options =
  retryCount :: "int option"
  timeout :: "nat option"

text \<open>
  The outcome of running \<^verbatim>\<open>hydrateConnection\<close>: what it returns or throws, how many
  \<^verbatim>\<open>GetItemCommand\<close>s it sent, and the delays it slept (one entry per
  \<^verbatim>\<open>setTimeout\<close>, in milliseconds).
\<close>

record hydrate_run =
  outcome :: "hydrate_error + connection"
  lookups :: nat
  waits :: "nat list"

text \<open>
  The retry loop \<^verbatim>\<open>for (let i = 0; i <= retryCount; i++)\<close>. The answer of the
  \<open>i\<close>-th \<^verbatim>\<open>GetItemCommand\<close> is \<open>reads i\<close> (an eventually consistent store may
  answer differently from one attempt to the next). \<open>n\<close> counts the iterations that are
  left, \<open>i\<close> is the loop variable. The result is the value of \<^verbatim>\<open>connection\<close> after
  the loop, the number of lookups and the delays slept.
\<close>

fun hydrate_loop ::
  "(nat \<Rightarrow> connection option) \<Rightarrow> nat \<Rightarrow> nat \<Rightarrow> nat \<Rightarrow> connection option \<times> nat \<times> nat list" where
  "hydrate_loop reads tmo i 0 = (None, 0, [])"
| "hydrate_loop reads tmo i (Suc n) =
     (case reads i of
        Some item \<Rightarrow> (Some item, 1, [])
      | None \<Rightarrow>
          (case hydrate_loop reads tmo (Suc i) n of
             (c, k, ws) \<Rightarrow> (c, Suc k, tmo # ws)))"

text \<open>
  The defaults of \<^verbatim>\<open>const { retryCount = 0, timeout = 50 } = options || {}\<close>, and the
  number of times the body of \<^verbatim>\<open>for (let i = 0; i <= retryCount; i++)\<close> can run.
\<close>

definition hydrate_retryCount :: "hydrate_options \<Rightarrow> int" where
  "hydrate_retryCount options = (case retryCount options of None \<Rightarrow> 0 | Some r \<Rightarrow> r)"

definition hydrate_timeout :: "hydrate_options \<Rightarrow> nat" where
  "hydrate_timeout options = (case timeout options of None \<Rightarrow> 50 | Some t \<Rightarrow> t)"

definition attempts :: "hydrate_options \<Rightarrow> nat" where
  "attempts options = nat (hydrate_retryCount options + 1)"

text \<open>
  \<^verbatim>\<open>hydrateConnection\<close>. The helper \<^verbatim>\<open>isTTLExpired\<close> is imported from a module that
  is not part of the sources at hand, so it is the parameter \<open>isTTLExpired\<close>, applied to the
  \<^verbatim>\<open>ttl\<close> field of the row that was found. The loop runs for \<open>i = 0, \<dots>, retryCount\<close>,
  that is at most \<open>attempts options\<close> times (no time when \<open>retryCount\<close> is negative).
\<close>

definition hydrateConnection ::
  "(nat option \<Rightarrow> bool) \<Rightarrow> (nat \<Rightarrow> connection option) \<Rightarrow> string \<Rightarrow> hydrate_options \<Rightarrow> hydrate_run" where
  "hydrateConnection isTTLExpired reads connectionId options =
     (let tmo = hydrate_timeout options
      in case hydrate_loop reads tmo 0 (attempts options) of
           (c, k, ws) \<Rightarrow>
             \<lparr> outcome =
                 (case c of
                    None \<Rightarrow> Inl (ConnectionNotFoundError connectionId)
                  | Some row \<Rightarrow>
                      if isTTLExpired (ttl row) then Inl (ConnectionNotFoundError connectionId)
                      else Inr row),
               lookups = k, waits = ws \<rparr>)"

text \<open>
  \<^verbatim>\<open>registerConnection\<close>. The configured lease \<open>cfg_ttl\<close> is \<open>None\<close> for
  \<^verbatim>\<open>ttl: false\<close> and \<open>Some seconds\<close> otherwise; \<^verbatim>\<open>computeTTL\<close> (from the helpers
  module, not part of the sources at hand) is a parameter, and \<open>date\<close> is the value of
  \<^verbatim>\<open>new Date().toString()\<close>. The \<^verbatim>\<open>PutItemCommand\<close> replaces the item under the key.
  The result is the returned connection object and the table after the write.
\<close>

definition registerConnection ::
  "(nat \<Rightarrow> nat) \<Rightarrow> nat option \<Rightarrow> string \<Rightarrow> string \<Rightarrow> string \<Rightarrow> connections_table
     \<Rightarrow> connection \<times> connections_table" where
  "registerConnection computeTTL cfg_ttl date connectionId endpt tbl =
     (let conn = \<lparr> conn_id = connectionId,
                    data = \<lparr> endpoint = endpt, conn_context = [], isInitialized = False \<rparr>,
                    ttl = None, createdAt = None \<rparr>;
          item = \<lparr> conn_id = conn_id conn, data = data conn,
                    ttl = (case cfg_ttl of None \<Rightarrow> None | Some t \<Rightarrow> Some (computeTTL t)),
                    createdAt = Some date \<rparr>
      in (conn, tbl(conn_id conn \<mapsto> item)))"

section \<open>Values on the wire\<close>

text \<open>
  The managers talk to the table store through the low-level client: a command carries
  keys and items as attribute values (\<^verbatim>\<open>{ S: "..." }\<close> for a string, \<^verbatim>\<open>{ M: {...} }\<close>
  for a map), built from JS values by \<^verbatim>\<open>marshall\<close>, and a response carries items in
  the same form, which \<^verbatim>\<open>unmarshall\<close> turns back into JS values. The source does
  so where it hands rows on: \<^verbatim>\<open>unmarshall(result.Item)\<close> in \<^verbatim>\<open>hydrateConnection\<close>,
  \<^verbatim>\<open>result.Items?.map((item) => unmarshall(item))\<close> in \<^verbatim>\<open>subscribersByEvent\<close>.
  Only the shapes that occur in keys are needed here: strings and objects.
\<close>

datatype jsval = JString string | JObject "(string \<times> jsval) list"

datatype attr = S string | M "(string \<times> attr) list"

text \<open>
  \<^verbatim>\<open>marshall\<close> converts each property of an object: a string becomes an \<^verbatim>\<open>S\<close>
  attribute, a plain object becomes an \<^verbatim>\<open>M\<close> attribute of its converted properties.
\<close>

primrec convertToAttr :: "jsval \<Rightarrow> attr" where
  "convertToAttr (JString s) = S s"
| "convertToAttr (JObject fs) = M (map (map_prod (\<lambda>k. k) convertToAttr) fs)"

definition marshall :: "(string \<times> jsval) list \<Rightarrow> (string \<times> attr) list" where
  "marshall obj = map (map_prod (\<lambda>k. k) convertToAttr) obj"

text \<open>
  An item of a response, as the client hands it over: still marshalled. \<^verbatim>\<open>unmarshall\<close>
  gives the row; reading a string attribute \<open>v\<close> of the item itself (\<^verbatim>\<open>item.event\<close>) gives
  the attribute value, the object \<^verbatim>\<open>{ S: v }\<close>.
\<close>

datatype 'r item = Item 'r

primrec unmarshall :: "'r item \<Rightarrow> 'r" where
  "unmarshall (Item r) = r"

definition string_attribute :: "string \<Rightarrow> jsval" where
  "string_attribute v = JObject [(''S'', JString v)]"

section \<open>Subscription rows and the two tables\<close>

record operation =
  operationId :: string
  op_payload :: string

text \<open>
  A row of the \<^verbatim>\<open>Subscriptions\<close> table (hash key \<^verbatim>\<open>event\<close>, range key
  \<^verbatim>\<open>subscriptionId\<close>) and a row of the \<^verbatim>\<open>SubscriptionOperations\<close> table (hash key
  \<^verbatim>\<open>subscriptionId\<close>, range key \<^verbatim>\<open>event\<close>). The fields keep the source's names
  with a prefix, since field names are global.
\<close>

record subscription =
  sub_event :: string
  sub_subscriptionId :: string
  sub_connection :: connection
  sub_operation :: operation
  sub_operationId :: string
  sub_ttl :: "nat option"

record subscription_operation =
  so_subscriptionId :: string
  so_event :: string
  so_ttl :: "nat option"

text \<open>The key of a row, as the pair (event, subscriptionId), for both tables.\<close>

definition sub_key :: "subscription \<Rightarrow> string \<times> string" where
  "sub_key r = (sub_event r, sub_subscriptionId r)"

definition so_key :: "subscription_operation \<Rightarrow> string \<times> string" where
  "so_key r = (so_event r, so_subscriptionId r)"

record sub_store =
  subscriptions :: "subscription list"
  subscriptionOperations :: "subscription_operation list"

datatype store_error = ValidationException | TransactionCanceledException

section \<open>The table store\<close>

text \<open>
  The store is the collaborator behind \<^verbatim>\<open>this.db.send\<close>. A table is the list of its
  rows in key order, which is the order in which a query walks a partition. A put replaces
  the row under the same key; a delete of a key that is absent changes nothing.
\<close>

definition put_row :: "('r \<Rightarrow> 'k::linorder) \<Rightarrow> 'r \<Rightarrow> 'r list \<Rightarrow> 'r list" where
  "put_row key r tbl = insort_key key r (filter (\<lambda>x. key x \<noteq> key r) tbl)"

definition delete_row :: "('r \<Rightarrow> 'k) \<Rightarrow> 'k \<Rightarrow> 'r list \<Rightarrow> 'r list" where
  "delete_row key k tbl = filter (\<lambda>x. key x \<noteq> k) tbl"

text \<open>
  One page of a query: the rows after the cursor, at most \<open>limit\<close> of them evaluated,
  the filter applied to the evaluated rows afterwards. The response has a
  \<^verbatim>\<open>LastEvaluatedKey\<close> (the key of the last evaluated row) when the limit was reached,
  and none when the walk reached the end of the rows first.
\<close>

definition read_page ::
  "('r \<Rightarrow> 'k::linorder) \<Rightarrow> 'k option \<Rightarrow> nat \<Rightarrow> ('r \<Rightarrow> bool) \<Rightarrow> 'r list \<Rightarrow> 'r item list \<times> 'k option" where
  "read_page key cursor limit flt rows =
     (let rest = (case cursor of None \<Rightarrow> rows | Some k \<Rightarrow> filter (\<lambda>r. k < key r) rows);
          evaluated = take limit rest
      in (map Item (filter flt evaluated),
          if evaluated \<noteq> [] \<and> limit \<le> length rest then Some (key (last evaluated)) else None))"

text \<open>
  A scan walks the whole table: the partitions in the order of the store's hash of the
  partition key (\<open>h\<close>, which the store chooses), each partition in the order of its range
  key. \<open>scan_position\<close> is the place of a key in that walk. A page of a scan is cut like
  a page of a query.
\<close>

definition scan_position :: "(string \<Rightarrow> nat) \<Rightarrow> string \<times> string \<Rightarrow> nat \<times> string \<times> string" where
  "scan_position h k = (h (fst k), fst k, snd k)"

definition scan_page ::
  "(string \<Rightarrow> nat) \<Rightarrow> ('r \<Rightarrow> string \<times> string) \<Rightarrow> (string \<times> string) option \<Rightarrow> nat \<Rightarrow> ('r \<Rightarrow> bool)
     \<Rightarrow> 'r list \<Rightarrow> 'r item list \<times> (string \<times> string) option" where
  "scan_page h key cursor limit flt rows =
     (let walk = sort_key (\<lambda>r. scan_position h (key r)) rows;
          rest = (case cursor of
                    None \<Rightarrow> walk
                  | Some k \<Rightarrow> filter (\<lambda>r. scan_position h k < scan_position h (key r)) walk);
          evaluated = take limit rest
      in (map Item (filter flt evaluated),
          if evaluated \<noteq> [] \<and> limit \<le> length rest then Some (key (last evaluated)) else None))"

text \<open>
  The key schema of both tables: a key is accepted when it has exactly the two attributes
  \<^verbatim>\<open>event\<close> and \<^verbatim>\<open>subscriptionId\<close>, both of type \<^verbatim>\<open>S\<close>; any other key is
  rejected with a \<^verbatim>\<open>ValidationException\<close>.
\<close>

definition key_of_attrs :: "(string \<times> attr) list \<Rightarrow> (string \<times> string) option" where
  "key_of_attrs k =
     (if length k = 2 then
        (case (map_of k ''event'', map_of k ''subscriptionId'') of
           (Some (S e), Some (S i)) \<Rightarrow> Some (e, i)
         | _ \<Rightarrow> None)
      else None)"

text \<open>
  A \<^verbatim>\<open>BatchWriteItemCommand\<close> for the two tables. The store rejects the whole command
  with a \<^verbatim>\<open>ValidationException\<close>, and writes nothing, when the request list of a table
  is empty, when the command has more than 25 requests, when two requests of a table have
  the same key, or when a key does not match the key schema. A command it accepts is not a
  transaction: the store may leave requests unprocessed and hand them back as
  \<^verbatim>\<open>UnprocessedItems\<close>. \<open>u\<close> is the store's choice: the keys it leaves unprocessed in
  the Subscriptions table and in the SubscriptionOperations table. The managers never read
  \<^verbatim>\<open>UnprocessedItems\<close>.
\<close>

type_synonym unprocessed = "(string \<times> string) list \<times> (string \<times> string) list"

definition batch_delete ::
  "unprocessed \<Rightarrow> (string \<times> attr) list list \<Rightarrow> (string \<times> attr) list list \<Rightarrow> sub_store
     \<Rightarrow> store_error + sub_store" where
  "batch_delete u sub_keys so_keys s =
     (if sub_keys \<noteq> [] \<and> so_keys \<noteq> [] \<and> length sub_keys + length so_keys \<le> 25
         \<and> list_all (\<lambda>k. key_of_attrs k \<noteq> None) sub_keys
         \<and> list_all (\<lambda>k. key_of_attrs k \<noteq> None) so_keys
         \<and> distinct (map key_of_attrs sub_keys) \<and> distinct (map key_of_attrs so_keys)
      then Inr \<lparr> subscriptions =
                   fold (\<lambda>k. delete_row sub_key (the (key_of_attrs k)))
                     (filter (\<lambda>k. the (key_of_attrs k) \<notin> set (fst u)) sub_keys) (subscriptions s),
                 subscriptionOperations =
                   fold (\<lambda>k. delete_row so_key (the (key_of_attrs k)))
                     (filter (\<lambda>k. the (key_of_attrs k) \<notin> set (snd u)) so_keys)
                     (subscriptionOperations s) \<rparr>
      else Inl ValidationException)"

definition batch_put ::
  "unprocessed \<Rightarrow> subscription list \<Rightarrow> subscription_operation list \<Rightarrow> sub_store
     \<Rightarrow> store_error + sub_store" where
  "batch_put u subs sos s =
     (if subs \<noteq> [] \<and> sos \<noteq> [] \<and> length subs + length sos \<le> 25
         \<and> distinct (map sub_key subs) \<and> distinct (map so_key sos)
      then Inr \<lparr> subscriptions =
                   fold (put_row sub_key) (filter (\<lambda>r. sub_key r \<notin> set (fst u)) subs)
                     (subscriptions s),
                 subscriptionOperations =
                   fold (put_row so_key) (filter (\<lambda>r. so_key r \<notin> set (snd u)) sos)
                     (subscriptionOperations s) \<rparr>
      else Inl ValidationException)"

text \<open>
  A transaction of deletes on the two tables: all of it is applied, or (\<open>commit\<close> false:
  the store cancels the transaction) none of it.
\<close>

definition transact_delete ::
  "bool \<Rightarrow> (string \<times> attr) list \<Rightarrow> (string \<times> attr) list \<Rightarrow> sub_store \<Rightarrow> store_error option \<times> sub_store" where
  "transact_delete commit k1 k2 s =
     (case (key_of_attrs k1, key_of_attrs k2) of
        (Some a, Some b) \<Rightarrow>
          if commit then
            (None, \<lparr> subscriptions = delete_row sub_key a (subscriptions s),
                     subscriptionOperations = delete_row so_key b (subscriptionOperations s) \<rparr>)
          else (Some TransactionCanceledException, s)
      | _ \<Rightarrow> (Some ValidationException, s))"

section \<open>The subscription manager\<close>

definition generateSubscriptionId :: "string \<Rightarrow> string \<Rightarrow> string" where
  "generateSubscriptionId connectionId opId = connectionId @ '':'' @ opId"

text \<open>
  \<^verbatim>\<open>subscribe\<close>: one \<^verbatim>\<open>BatchWriteItemCommand\<close> with a put request per name for
  each table. \<open>cfg_ttl\<close> and \<open>computeTTL\<close> are as in \<^verbatim>\<open>registerConnection\<close>;
  \<^verbatim>\<open>ttlField\<close> is computed once and spread into every item. The command is awaited,
  so an error of the store rejects the call; the response is dropped. The result is the
  error the call rejects with, if any, and the store afterwards.
\<close>

definition subscribe ::
  "(nat \<Rightarrow> nat) \<Rightarrow> nat option \<Rightarrow> unprocessed \<Rightarrow> string list \<Rightarrow> connection \<Rightarrow> operation \<Rightarrow> sub_store
     \<Rightarrow> store_error option \<times> sub_store" where
  "subscribe computeTTL cfg_ttl u names conn oper s =
     (let subscriptionId = generateSubscriptionId (conn_id conn) (operationId oper);
          ttlField = (case cfg_ttl of None \<Rightarrow> None | Some t \<Rightarrow> Some (computeTTL t))
      in case batch_put u
                (map (\<lambda>name. \<lparr> sub_event = name, sub_subscriptionId = subscriptionId,
                               sub_connection = conn, sub_operation = oper,
                               sub_operationId = operationId oper, sub_ttl = ttlField \<rparr>) names)
                (map (\<lambda>name. \<lparr> so_subscriptionId = subscriptionId, so_event = name,
                               so_ttl = ttlField \<rparr>) names)
                s of
           Inl e \<Rightarrow> (Some e, s)
         | Inr s' \<Rightarrow> (None, s'))"

text \<open>The argument of \<^verbatim>\<open>unsubscribe\<close>.\<close>

record subscriber =
  subscriber_connection :: connection
  subscriber_event :: string
  subscriber_operationId :: string

text \<open>
  \<^verbatim>\<open>unsubscribe\<close>: one \<^verbatim>\<open>TransactWriteItemsCommand\<close> with a delete for each
  table, the keys marshalled from the subscriber's strings. The result is the error the
  call rejects with, if any, and the store afterwards.
\<close>

definition unsubscribe :: "bool \<Rightarrow> subscriber \<Rightarrow> sub_store \<Rightarrow> store_error option \<times> sub_store" where
  "unsubscribe commit sb s =
     (let subscriptionId =
            generateSubscriptionId (conn_id (subscriber_connection sb)) (subscriber_operationId sb)
      in transact_delete commit
           (marshall [(''event'', JString (subscriber_event sb)),
                      (''subscriptionId'', JString subscriptionId)])
           (marshall [(''subscriptionId'', JString subscriptionId),
                      (''event'', JString (subscriber_event sb))])
           s)"

text \<open>
  What \<^verbatim>\<open>item.event\<close> and \<^verbatim>\<open>item.subscriptionId\<close> evaluate to on an item of a
  response that was not unmarshalled.
\<close>

primrec so_item_event :: "subscription_operation item \<Rightarrow> jsval" where
  "so_item_event (Item r) = string_attribute (so_event r)"

primrec so_item_subscriptionId :: "subscription_operation item \<Rightarrow> jsval" where
  "so_item_subscriptionId (Item r) = string_attribute (so_subscriptionId r)"

primrec sub_item_event :: "subscription item \<Rightarrow> jsval" where
  "sub_item_event (Item r) = string_attribute (sub_event r)"

primrec sub_item_subscriptionId :: "subscription item \<Rightarrow> jsval" where
  "sub_item_subscriptionId (Item r) = string_attribute (sub_subscriptionId r)"

text \<open>
  \<^verbatim>\<open>unsubscribeOperation\<close>: a \<^verbatim>\<open>QueryCommand\<close> on the SubscriptionOperations
  table for the partition of the subscription id (no limit: every row of the partition),
  then a \<^verbatim>\<open>BatchWriteItemCommand\<close> with a delete request per item for each table. The
  keys are marshalled from the fields of the items of the response as they are
  (\<^verbatim>\<open>operation.Items.map((item) => ... marshall({ event: item.event, ... }))\<close>); the
  array \<^verbatim>\<open>operation.Items\<close> is truthy also when it is empty.
\<close>

definition unsubscribeOperation ::
  "unprocessed \<Rightarrow> string \<Rightarrow> string \<Rightarrow> sub_store \<Rightarrow> store_error option \<times> sub_store" where
  "unsubscribeOperation u connectionId opId s =
     (let Items = map Item (filter (\<lambda>r. so_subscriptionId r = generateSubscriptionId connectionId opId)
                              (subscriptionOperations s))
      in case batch_delete u
                (map (\<lambda>item. marshall [(''event'', so_item_event item),
                                       (''subscriptionId'', so_item_subscriptionId item)]) Items)
                (map (\<lambda>item. marshall [(''subscriptionId'', so_item_subscriptionId item),
                                       (''event'', so_item_event item)]) Items)
                s of
           Inl e \<Rightarrow> (Some e, s)
         | Inr s' \<Rightarrow> (None, s'))"

text \<open>
  Facts about the store that the termination proofs of the paginated loops use: a
  continuation cursor leaves strictly fewer rows ahead, and deletes never add rows.
\<close>

lemma read_page_cursor_advances:
  assumes "read_page key cursor limit flt rows = (its, Some k)"
  shows "length (filter (\<lambda>r. k < key r) rows)
           < length (case cursor of None \<Rightarrow> rows | Some c \<Rightarrow> filter (\<lambda>r. c < key r) rows)"
proof -
  let ?rest = "case cursor of None \<Rightarrow> rows | Some c \<Rightarrow> filter (\<lambda>r. c < key r) rows"
  let ?ev = "take limit ?rest"
  from assms have ne: "?ev \<noteq> []" and k: "k = key (last ?ev)"
    by (auto simp: read_page_def Let_def split: if_splits)
  have mem: "last ?ev \<in> set ?rest" using ne last_in_set in_set_takeD by metis
  have sub: "filter (\<lambda>r. k < key r) rows = filter (\<lambda>r. k < key r) ?rest"
  proof (cases cursor)
    case None
    then show ?thesis by simp
  next
    case (Some c)
    with mem have "c < k" by (simp add: k)
    then have "\<And>r. k < key r \<Longrightarrow> c < key r" by (rule less_trans)
    then have "filter (\<lambda>r. k < key r) rows = filter (\<lambda>r. k < key r \<and> c < key r) rows"
      by (intro filter_cong) auto
    then show ?thesis using Some by (simp add: conj_commute)
  qed
  have "length (filter (\<lambda>r. k < key r) ?rest) < length ?rest"
    using mem k by (intro length_filter_less [of "last ?ev"]) auto
  then show ?thesis using sub by simp
qed

lemma length_filter_insort_key:
  "length (filter P (insort_key f x xs)) = length (filter P (x # xs))"
  by (induction xs) auto

lemma length_filter_sort_key:
  "length (filter P (sort_key f xs)) = length (filter P xs)"
  by (induction xs) (simp_all add: length_filter_insort_key)

text \<open>The rows that a scan still has ahead of a cursor.\<close>

definition scan_ahead ::
  "(string \<Rightarrow> nat) \<Rightarrow> ('r \<Rightarrow> string \<times> string) \<Rightarrow> (string \<times> string) option \<Rightarrow> 'r list \<Rightarrow> nat" where
  "scan_ahead h key cursor rows =
     length (case cursor of
               None \<Rightarrow> rows
             | Some k \<Rightarrow> filter (\<lambda>r. scan_position h k < scan_position h (key r)) rows)"

lemma scan_page_cursor_advances:
  assumes "scan_page h key cursor limit flt rows = (its, Some k)"
  shows "scan_ahead h key (Some k) rows < scan_ahead h key cursor rows"
proof -
  let ?pos = "\<lambda>r. scan_position h (key r)"
  let ?walk = "sort_key ?pos rows"
  let ?rest = "case cursor of None \<Rightarrow> ?walk
                | Some c \<Rightarrow> filter (\<lambda>r. scan_position h c < ?pos r) ?walk"
  let ?ev = "take limit ?rest"
  from assms have ne: "?ev \<noteq> []" and k: "k = key (last ?ev)"
    by (auto simp: scan_page_def Let_def split: if_splits)
  have mem: "last ?ev \<in> set ?rest" using ne last_in_set in_set_takeD by metis
  have sub: "filter (\<lambda>r. scan_position h k < ?pos r) ?walk
               = filter (\<lambda>r. scan_position h k < ?pos r) ?rest"
  proof (cases cursor)
    case None
    then show ?thesis by simp
  next
    case (Some c)
    with mem have "scan_position h c < scan_position h k" by (simp add: k)
    then have "\<And>r. scan_position h k < ?pos r \<Longrightarrow> scan_position h c < ?pos r"
      by (rule less_trans)
    then have "filter (\<lambda>r. scan_position h k < ?pos r) ?walk
                 = filter (\<lambda>r. scan_position h k < ?pos r \<and> scan_position h c < ?pos r) ?walk"
      by (intro filter_cong) auto
    then show ?thesis using Some by (simp add: conj_commute)
  qed
  have "length (filter (\<lambda>r. scan_position h k < ?pos r) ?rest) < length ?rest"
    using mem k by (intro length_filter_less [of "last ?ev"]) auto
  then have "length (filter (\<lambda>r. scan_position h k < ?pos r) ?walk) < length ?rest"
    using sub by simp
  moreover have "length ?rest = scan_ahead h key cursor rows"
    by (cases cursor) (simp_all add: scan_ahead_def length_filter_sort_key)
  ultimately show ?thesis by (simp add: scan_ahead_def length_filter_sort_key)
qed

lemma length_filter_delete_row:
  "length (filter P (delete_row key k tbl)) \<le> length (filter P tbl)"
proof -
  have "filter P (delete_row key k tbl) = filter (\<lambda>x. key x \<noteq> k) (filter P tbl)"
    by (simp add: delete_row_def conj_commute)
  moreover have "length (filter (\<lambda>x. key x \<noteq> k) (filter P tbl)) \<le> length (filter P tbl)"
    by (rule length_filter_le)
  ultimately show ?thesis by (simp only:)
qed

lemma length_filter_fold_delete:
  "length (filter P (fold (\<lambda>k. delete_row key (f k)) ks tbl)) \<le> length (filter P tbl)"
proof (induction ks arbitrary: tbl)
  case Nil
  then show ?case by simp
next
  case (Cons k ks)
  have "length (filter P (fold (\<lambda>k. delete_row key (f k)) ks (delete_row key (f k) tbl)))
          \<le> length (filter P (delete_row key (f k) tbl))" by (rule Cons.IH)
  also have "\<dots> \<le> length (filter P tbl)" by (rule length_filter_delete_row)
  finally show ?case by simp
qed

lemma batch_delete_shrinks:
  assumes "batch_delete u ks1 ks2 s = Inr s'"
  shows "length (filter P (subscriptions s')) \<le> length (filter P (subscriptions s))"
  using assms
    length_filter_fold_delete [of P sub_key "\<lambda>k. the (key_of_attrs k)"
      "filter (\<lambda>k. the (key_of_attrs k) \<notin> set (fst u)) ks1" "subscriptions s"]
  by (auto simp: batch_delete_def split: if_splits)

lemma batch_delete_scan_ahead:
  assumes "batch_delete u ks1 ks2 s = Inr s'"
  shows "scan_ahead h sub_key (Some k) (subscriptions s') \<le> scan_ahead h sub_key (Some k) (subscriptions s)"
  using batch_delete_shrinks [OF assms] by (simp add: scan_ahead_def)

text \<open>
  One \<^verbatim>\<open>BatchWriteItemCommand\<close> of the cleanup, as it is sent: the keys of the delete
  requests for the Subscriptions table and for the SubscriptionOperations table.
\<close>

type_synonym delete_batch = "(string \<times> attr) list list \<times> (string \<times> attr) list list"

text \<open>
  \<^verbatim>\<open>unsubscribeAllByConnectionId\<close>: the loop \<^verbatim>\<open>do { ... } while (cursor)\<close>. Each
  round sends a \<^verbatim>\<open>ScanCommand\<close> on the Subscriptions table (limit 12, filter
  \<^verbatim>\<open>begins_with(subscriptionId, :connection_id)\<close>), returns when the page has no
  items, and otherwise sends a \<^verbatim>\<open>BatchWriteItemCommand\<close> with a delete request per item
  for each table, the keys marshalled from the fields of the items of the response as they
  are. An error of the store rejects the call. The result is the error the call rejects
  with, if any, the store afterwards, and the batches that were sent, in order.
\<close>

function unsubscribeAll_loop ::
  "(string \<Rightarrow> nat) \<Rightarrow> unprocessed \<Rightarrow> string \<Rightarrow> (string \<times> string) option \<Rightarrow> sub_store
     \<Rightarrow> store_error option \<times> sub_store \<times> delete_batch list" where
  "unsubscribeAll_loop h u connectionId cursor s =
     (case scan_page h sub_key cursor 12 (\<lambda>r. prefix connectionId (sub_subscriptionId r))
             (subscriptions s) of
        (Items, LastEvaluatedKey) \<Rightarrow>
          if Items = [] then (None, s, [])
          else
            (let batch =
                   (map (\<lambda>item. marshall [(''event'', sub_item_event item),
                                          (''subscriptionId'', sub_item_subscriptionId item)]) Items,
                    map (\<lambda>item. marshall [(''subscriptionId'', sub_item_subscriptionId item),
                                          (''event'', sub_item_event item)]) Items)
             in case batch_delete u (fst batch) (snd batch) s of
                  Inl e \<Rightarrow> (Some e, s, [batch])
                | Inr s' \<Rightarrow>
                    (case LastEvaluatedKey of
                       None \<Rightarrow> (None, s', [batch])
                     | Some k \<Rightarrow>
                         (case unsubscribeAll_loop h u connectionId (Some k) s' of
                            (e, s'', batches) \<Rightarrow> (e, s'', batch # batches)))))"
  by pat_completeness auto
termination
  apply (relation "measure (\<lambda>(h, u, c, cursor, s). scan_ahead h sub_key cursor (subscriptions s))")
   apply simp
  apply simp
  apply (rule le_less_trans [OF batch_delete_scan_ahead scan_page_cursor_advances])
   apply assumption
  apply (erule sym)
  done

declare unsubscribeAll_loop.simps [simp del]

definition unsubscribeAllByConnectionId ::
  "(string \<Rightarrow> nat) \<Rightarrow> unprocessed \<Rightarrow> string \<Rightarrow> sub_store
     \<Rightarrow> store_error option \<times> sub_store \<times> delete_batch list" where
  "unsubscribeAllByConnectionId h u connectionId s = unsubscribeAll_loop h u connectionId None s"

text \<open>
  \<^verbatim>\<open>subscribersByEvent\<close> returns an async iterator over pages of subscribers. Its
  closure holds \<^verbatim>\<open>ExclusiveStartKey\<close> and \<^verbatim>\<open>done\<close>.
\<close>

record iterator_state =
  ExclusiveStartKey :: "(string \<times> string) option"
  done_flag :: bool

text \<open>
  The filter expression \<^verbatim>\<open>#ttl > :time OR attribute_not_exists(#ttl)\<close>, where
  \<open>time\<close> is \<^verbatim>\<open>Math.round(Date.now() / 1000)\<close>.
\<close>

definition live_at :: "nat \<Rightarrow> subscription \<Rightarrow> bool" where
  "live_at time r = (case sub_ttl r of None \<Rightarrow> True | Some t \<Rightarrow> time < t)"

text \<open>
  \<^verbatim>\<open>next\<close>: one \<^verbatim>\<open>QueryCommand\<close> on the partition of the name (limit 50), the
  items unmarshalled. The result is \<^verbatim>\<open>{ value, done }\<close> and the closure afterwards.
\<close>

definition subscribersByEvent_next ::
  "string \<Rightarrow> nat \<Rightarrow> sub_store \<Rightarrow> iterator_state \<Rightarrow> (subscription list \<times> bool) \<times> iterator_state" where
  "subscribersByEvent_next name time s st =
     (if done_flag st then (([], True), st)
      else
        (case read_page sub_key (ExclusiveStartKey st) 50 (live_at time)
                (filter (\<lambda>r. sub_event r = name) (subscriptions s)) of
           (Items, LastEvaluatedKey) \<Rightarrow>
             (let st' = \<lparr> ExclusiveStartKey = LastEvaluatedKey, done_flag = (LastEvaluatedKey = None) \<rparr>;
                  v = map unmarshall Items
              in ((v, v = []), st'))))"

text \<open>A bound on the pages an iterator can still fetch, for the termination of a drain.\<close>

definition pages_ahead :: "string \<Rightarrow> sub_store \<Rightarrow> iterator_state \<Rightarrow> nat" where
  "pages_ahead name s st =
     (if done_flag st then 0
      else Suc (length (case ExclusiveStartKey st of
                          None \<Rightarrow> filter (\<lambda>r. sub_event r = name) (subscriptions s)
                        | Some k \<Rightarrow> filter (\<lambda>r. k < sub_key r)
                                     (filter (\<lambda>r. sub_event r = name) (subscriptions s)))))"

lemma subscribersByEvent_next_advances:
  assumes "subscribersByEvent_next name time s st = ((v, False), st')"
  shows "pages_ahead name s st' < pages_ahead name s st"
proof -
  from assms have nd: "\<not> done_flag st"
    by (auto simp: subscribersByEvent_next_def)
  obtain Items lek where rp: "read_page sub_key (ExclusiveStartKey st) 50 (live_at time)
                (filter (\<lambda>r. sub_event r = name) (subscriptions s)) = (Items, lek)"
    by (cases "read_page sub_key (ExclusiveStartKey st) 50 (live_at time)
                (filter (\<lambda>r. sub_event r = name) (subscriptions s))") auto
  with assms nd have st': "st' = \<lparr> ExclusiveStartKey = lek, done_flag = (lek = None) \<rparr>"
    by (auto simp: subscribersByEvent_next_def Let_def)
  show ?thesis
  proof (cases lek)
    case None
    then show ?thesis using st' nd by (simp add: pages_ahead_def)
  next
    case (Some k)
    from read_page_cursor_advances [OF rp [unfolded Some]]
    show ?thesis using st' nd Some by (simp add: pages_ahead_def)
  qed
qed

text \<open>
  The sequence the iterator yields to a consumer that follows the iteration protocol
  (\<^verbatim>\<open>for await (const page of iterator)\<close>): the values of the results up to, and
  without, the first result with \<^verbatim>\<open>done: true\<close>. The table and the clock are held
  fixed while the consumer drains the iterator.
\<close>

function drain :: "string \<Rightarrow> nat \<Rightarrow> sub_store \<Rightarrow> iterator_state \<Rightarrow> subscription list list" where
  "drain name time s st =
     (case subscribersByEvent_next name time s st of
        ((v, d), st') \<Rightarrow> if d then [] else v # drain name time s st')"
  by pat_completeness auto
termination
  apply (relation "measure (\<lambda>(name, time, s, st). pages_ahead name s st)")
   apply simp
  apply simp
  apply (rule subscribersByEvent_next_advances)
  apply (drule sym)
  apply (drule sym)
  apply simp
  done

declare drain.simps [simp del]

text \<open>
  An event record, and the default \<^verbatim>\<open>getSubscriptionNameFromEvent\<close>,
  \<^verbatim>\<open>(event) => event.event\<close>.
\<close>

record event_record =
  event_name :: string
  event_payload :: string

definition subscribersByEvent ::
  "('e \<Rightarrow> string) \<Rightarrow> nat \<Rightarrow> sub_store \<Rightarrow> 'e \<Rightarrow> subscription list list" where
  "subscribersByEvent getSubscriptionNameFromEvent time s ev =
     drain (getSubscriptionNameFromEvent ev) time s \<lparr> ExclusiveStartKey = None, done_flag = False \<rparr>"

section \<open>Sending and unregistering\<close>

text \<open>The state of the three tables.\<close>

record store =
  connections :: connections_table
  subs :: sub_store

text \<open>
  \<^verbatim>\<open>unregisterConnection\<close>: \<^verbatim>\<open>Promise.all\<close> of a \<^verbatim>\<open>DeleteItemCommand\<close> on the
  Connections table and \<^verbatim>\<open>subscriptions.unsubscribeAllByConnectionId(id)\<close>. Both are
  started; they touch different tables, so the order in which their steps interleave
  does not show in the result. The call rejects when the cleanup rejects.
\<close>

definition unregisterConnection ::
  "(string \<Rightarrow> nat) \<Rightarrow> unprocessed \<Rightarrow> connection \<Rightarrow> store \<Rightarrow> store_error option \<times> store" where
  "unregisterConnection h u conn st =
     (case unsubscribeAllByConnectionId h u (conn_id conn) (subs st) of
        (e, s', batches) \<Rightarrow>
          (e, \<lparr> connections = (connections st)((conn_id conn) := None), subs = s' \<rparr>))"

text \<open>
  A value thrown by the send of a \<^verbatim>\<open>PostToConnectionCommand\<close>: its name, its
  \<^verbatim>\<open>statusCode\<close> property and the \<^verbatim>\<open>httpStatusCode\<close> of its \<^verbatim>\<open>$metadata\<close>
  (\<open>None\<close>: the value has no such property).
\<close>

record transport_error =
  error_name :: string
  statusCode :: "nat option"
  httpStatusCode :: "nat option"

text \<open>
  The signal that a connection is gone for good. The source sends through
  \<^verbatim>\<open>ApiGatewayManagementApiClient\<close> of \<^verbatim>\<open>@aws-sdk/client-apigatewaymanagementapi\<close>;
  that client answers HTTP status 410 by throwing its \<^verbatim>\<open>GoneException\<close>, which carries
  the status as \<^verbatim>\<open>$metadata.httpStatusCode\<close> and has no \<^verbatim>\<open>statusCode\<close> property.
\<close>

definition GoneException :: transport_error where
  "GoneException = \<lparr> error_name = ''GoneException'', statusCode = None, httpStatusCode = Some 410 \<rparr>"

text \<open>What the send did: the payload was delivered, or the send threw.\<close>

datatype push_result = Delivered | PushFailed transport_error

text \<open>What a call can reject with: the error of the transport, or an error of the store.\<close>

datatype thrown = TransportError transport_error | StoreError store_error

text \<open>
  The run of a \<^verbatim>\<open>sendToConnection\<close>: what it rejected with (\<open>None\<close>: it returned
  normally), the tables afterwards, the number of \<^verbatim>\<open>PostToConnectionCommand\<close>s sent, the
  number of \<^verbatim>\<open>console.warn\<close> lines written and the number of calls of
  \<^verbatim>\<open>unregisterConnection\<close>.
\<close>

record send_run =
  rejected :: "thrown option"
  after :: store
  posts :: nat
  warnings :: nat
  unregistered :: nat

text \<open>
  \<^verbatim>\<open>sendToConnection\<close>: the \<^verbatim>\<open>catch\<close> block tests
  \<^verbatim>\<open>e && e.statusCode === 410\<close>; the call of \<^verbatim>\<open>unregisterConnection\<close> in it is awaited.
\<close>

definition sendToConnection ::
  "(string \<Rightarrow> nat) \<Rightarrow> unprocessed \<Rightarrow> push_result \<Rightarrow> connection \<Rightarrow> store \<Rightarrow> send_run" where
  "sendToConnection h u push conn st =
     (case push of
        Delivered \<Rightarrow> \<lparr> rejected = None, after = st, posts = 1, warnings = 0, unregistered = 0 \<rparr>
      | PushFailed e \<Rightarrow>
          if statusCode e = Some 410 then
            (case unregisterConnection h u conn st of
               (err, st') \<Rightarrow> \<lparr> rejected = map_option StoreError err, after = st',
                               posts = 1, warnings = 0, unregistered = 1 \<rparr>)
          else \<lparr> rejected = None, after = st, posts = 1, warnings = 1, unregistered = 0 \<rparr>)"

section \<open>The cross-index invariant\<close>

text \<open>
  What a row of either table says about the relation: the subscription id, the event name
  and the ttl. The two tables agree when they say the same about the same pairs.
\<close>

definition sub_entry :: "subscription \<Rightarrow> string \<times> string \<times> nat option" where
  "sub_entry r = (sub_subscriptionId r, sub_event r, sub_ttl r)"

definition so_entry :: "subscription_operation \<Rightarrow> string \<times> string \<times> nat option" where
  "so_entry r = (so_subscriptionId r, so_event r, so_ttl r)"

definition cross_index_invariant :: "sub_store \<Rightarrow> bool" where
  "cross_index_invariant s \<longleftrightarrow>
     sub_entry ` set (subscriptions s) = so_entry ` set (subscriptionOperations s)"

section \<open>What a cleanup asks the store to delete\<close>


section \<open>Concrete inputs\<close>

text \<open>A stored connection row whose lease runs until second 2000.\<close>

definition w_row :: connection where
  "w_row = \<lparr> conn_id = ''c1'',
             data = \<lparr> endpoint = ''wss://x'', conn_context = [], isInitialized = False \<rparr>,
             ttl = Some 2000, createdAt = Some ''d'' \<rparr>"

text \<open>
  An expiry test for the clock at second 1000: a row with no \<^verbatim>\<open>ttl\<close> never expires, one
  with a \<^verbatim>\<open>ttl\<close> has expired when the \<^verbatim>\<open>ttl\<close> lies before the clock.
\<close>

definition expired_at_1000 :: "nat option \<Rightarrow> bool" where
  "expired_at_1000 t = (case t of None \<Rightarrow> False | Some v \<Rightarrow> v < 1000)"

text \<open>A store that answers the third lookup only (replication lag).\<close>

definition lagging_reads :: "nat \<Rightarrow> connection option" where
  "lagging_reads i = (if i = 2 then Some w_row else None)"

text \<open>\<^verbatim>\<open>computeTTL\<close> for the clock at second 1000: the lease ends \<open>t\<close> seconds later.\<close>

definition lease_at_1000 :: "nat \<Rightarrow> nat" where
  "lease_at_1000 t = 1000 + t"

text \<open>A connection object, an operation and the empty tables.\<close>

definition conn_c1 :: connection where
  "conn_c1 = \<lparr> conn_id = ''c1'',
               data = \<lparr> endpoint = ''wss://x'', conn_context = [], isInitialized = False \<rparr>,
               ttl = None, createdAt = None \<rparr>"

definition oper_op1 :: operation where
  "oper_op1 = \<lparr> operationId = ''op1'', op_payload = ''subscription { a }'' \<rparr>"

definition empty_store :: sub_store where
  "empty_store = \<lparr> subscriptions = [], subscriptionOperations = [] \<rparr>"

text \<open>
  Rows as \<^verbatim>\<open>subscribe\<close> writes them: the connection \<open>cid\<close> with operation
  \<open>oid\<close> subscribed to the event \<open>ev\<close>, with the ttl \<open>t\<close>.
\<close>

definition sub_row :: "string \<Rightarrow> string \<Rightarrow> string \<Rightarrow> nat option \<Rightarrow> subscription" where
  "sub_row ev cid oid t =
     \<lparr> sub_event = ev, sub_subscriptionId = cid @ '':'' @ oid,
       sub_connection = \<lparr> conn_id = cid,
           data = \<lparr> endpoint = ''wss://x'', conn_context = [], isInitialized = False \<rparr>,
           ttl = None, createdAt = None \<rparr>,
       sub_operation = \<lparr> operationId = oid, op_payload = ''subscription { a }'' \<rparr>,
       sub_operationId = oid, sub_ttl = t \<rparr>"

definition so_row :: "string \<Rightarrow> string \<Rightarrow> string \<Rightarrow> nat option \<Rightarrow> subscription_operation" where
  "so_row ev cid oid t = \<lparr> so_subscriptionId = cid @ '':'' @ oid, so_event = ev, so_ttl = t \<rparr>"

text \<open>The tables after \<^verbatim>\<open>subscribe(["A", "B"], c1, op1)\<close> with a lease until second 8200.\<close>

definition store_c1_AB :: sub_store where
  "store_c1_AB =
     \<lparr> subscriptions = [sub_row ''A'' ''c1'' ''op1'' (Some 8200), sub_row ''B'' ''c1'' ''op1'' (Some 8200)],
       subscriptionOperations = [so_row ''A'' ''c1'' ''op1'' (Some 8200), so_row ''B'' ''c1'' ''op1'' (Some 8200)] \<rparr>"

text \<open>
  Thirteen subscriptions to the event A: twelve of other connections, whose keys come
  first in key order, and one of the connection c1.
\<close>

definition other_ids :: "string list" where
  "other_ids = [''b01'', ''b02'', ''b03'', ''b04'', ''b05'', ''b06'',
                ''b07'', ''b08'', ''b09'', ''b10'', ''b11'', ''b12'']"

definition store_13 :: sub_store where
  "store_13 =
     \<lparr> subscriptions = map (\<lambda>c. sub_row ''A'' c ''op1'' None) other_ids @ [sub_row ''A'' ''c1'' ''op1'' None],
       subscriptionOperations = map (\<lambda>c. so_row ''A'' c ''op1'' None) other_ids @ [so_row ''A'' ''c1'' ''op1'' None] \<rparr>"

text \<open>
  Fifty-one subscriptions to the event A: fifty whose lease ended at second 500 (of the
  connections b, bb, bbb, ...), whose keys come first in key order, and one of the
  connection c1 with a lease until second 8200.
\<close>

definition expired_rows :: "nat \<Rightarrow> subscription list" where
  "expired_rows n = map (\<lambda>i. sub_row ''A'' (replicate (Suc i) (CHR ''b'')) ''op1'' (Some 500)) [0..<n]"

definition store_51 :: sub_store where
  "store_51 =
     \<lparr> subscriptions = expired_rows 50 @ [sub_row ''A'' ''c1'' ''op1'' (Some 8200)],
       subscriptionOperations =
         map (\<lambda>i. so_row ''A'' (replicate (Suc i) (CHR ''b'')) ''op1'' (Some 500)) [0..<50]
           @ [so_row ''A'' ''c1'' ''op1'' (Some 8200)] \<rparr>"


text \<open>The connection c1 registered, and no subscription.\<close>

definition registered_c1 :: store where
  "registered_c1 = \<lparr> connections = [''c1'' \<mapsto> w_row], subs = empty_store \<rparr>"

text \<open>
  A store's choices: a hash of the partition key (here the length of the name), and a
  store that processes every request of a batch it accepts.
\<close>

definition hash_of_name :: "string \<Rightarrow> nat" where
  "hash_of_name name = length name"

definition all_processed :: unprocessed where
  "all_processed = ([], [])"

section \<open>Hydration\<close>

lemma hydrate_loop_lookups_le: "fst (snd (hydrate_loop reads tmo i n)) \<le> n"
proof (induction n arbitrary: i)
  case 0
  then show ?case by simp
next
  case (Suc n)
  show ?case
    using Suc.IH [of "Suc i"] by (cases "reads i") (auto split: prod.splits)
qed

lemma hydrate_loop_None_iff:
  "fst (hydrate_loop reads tmo i n) = None \<longleftrightarrow> (\<forall>j. i \<le> j \<and> j < i + n \<longrightarrow> reads j = None)"
proof (induction n arbitrary: i)
  case 0
  then show ?case by auto
next
  case (Suc n)
  show ?case
  proof (cases "reads i")
    case None
    have "(\<forall>j. i \<le> j \<and> j < i + Suc n \<longrightarrow> reads j = None)
            \<longleftrightarrow> (\<forall>j. Suc i \<le> j \<and> j < Suc i + n \<longrightarrow> reads j = None)"
    proof
      assume h: "\<forall>j. i \<le> j \<and> j < i + Suc n \<longrightarrow> reads j = None"
      show "\<forall>j. Suc i \<le> j \<and> j < Suc i + n \<longrightarrow> reads j = None"
        using h by auto
    next
      assume h: "\<forall>j. Suc i \<le> j \<and> j < Suc i + n \<longrightarrow> reads j = None"
      show "\<forall>j. i \<le> j \<and> j < i + Suc n \<longrightarrow> reads j = None"
      proof (intro allI impI)
        fix j assume "i \<le> j \<and> j < i + Suc n"
        then have "j = i \<or> (Suc i \<le> j \<and> j < Suc i + n)" by auto
        then show "reads j = None" using None h by auto
      qed
    qed
    then show ?thesis using None Suc.IH [of "Suc i"]
      by (auto split: prod.splits)
  next
    case (Some item)
    then show ?thesis by force
  qed
qed

lemma hydrate_loop_Some:
  "fst (hydrate_loop reads tmo i n) = Some row \<Longrightarrow>
     \<exists>j. i \<le> j \<and> j < i + n \<and> reads j = Some row \<and> (\<forall>l. i \<le> l \<and> l < j \<longrightarrow> reads l = None)
        \<and> fst (snd (hydrate_loop reads tmo i n)) = Suc (j - i)
        \<and> snd (snd (hydrate_loop reads tmo i n)) = replicate (j - i) tmo"
proof (induction n arbitrary: i)
  case 0
  then show ?case by simp
next
  case (Suc n)
  show ?case
  proof (cases "reads i")
    case (Some item)
    with Suc.prems have "item = row" by simp
    with Some show ?thesis by (intro exI [of _ i]) auto
  next
    case None
    with Suc.prems have "fst (hydrate_loop reads tmo (Suc i) n) = Some row"
      by (auto split: prod.splits)
    from Suc.IH [OF this] obtain j where j:
      "Suc i \<le> j" "j < Suc i + n" "reads j = Some row"
      "\<forall>l. Suc i \<le> l \<and> l < j \<longrightarrow> reads l = None"
      "fst (snd (hydrate_loop reads tmo (Suc i) n)) = Suc (j - Suc i)"
      "snd (snd (hydrate_loop reads tmo (Suc i) n)) = replicate (j - Suc i) tmo"
      by blast
    have l: "\<forall>l. i \<le> l \<and> l < j \<longrightarrow> reads l = None"
    proof (intro allI impI)
      fix l assume "i \<le> l \<and> l < j"
      then have "l = i \<or> (Suc i \<le> l \<and> l < j)" by auto
      then show "reads l = None" using None j(4) by auto
    qed
    have d: "j - i = Suc (j - Suc i)" using j(1) by simp
    show ?thesis
      using None j(1,2,3,5,6) l d
      by (intro exI [of _ j]) (auto split: prod.splits)
  qed
qed

lemma hydrate_loop_None_waits:
  "fst (hydrate_loop reads tmo i n) = None \<Longrightarrow>
     fst (snd (hydrate_loop reads tmo i n)) = n \<and> snd (snd (hydrate_loop reads tmo i n)) = replicate n tmo"
proof (induction n arbitrary: i)
  case 0
  then show ?case by simp
next
  case (Suc n)
  show ?case
  proof (cases "reads i")
    case None
    with Suc.prems have "fst (hydrate_loop reads tmo (Suc i) n) = None"
      by (auto split: prod.splits)
    from Suc.IH [OF this] show ?thesis using None
      by (auto split: prod.splits)
  next
    case (Some item)
    with Suc.prems show ?thesis by simp
  qed
qed

lemma hydrateConnection_found:
  assumes "fst (hydrate_loop reads (hydrate_timeout options) 0 (attempts options)) = Some row"
  shows "outcome (hydrateConnection X reads cid options) =
           (if X (ttl row) then Inl (ConnectionNotFoundError cid) else Inr row)"
  using assms by (auto simp: hydrateConnection_def Let_def split: prod.splits)

lemma hydrateConnection_missing:
  assumes "fst (hydrate_loop reads (hydrate_timeout options) 0 (attempts options)) = None"
  shows "outcome (hydrateConnection X reads cid options) = Inl (ConnectionNotFoundError cid)"
  using assms by (auto simp: hydrateConnection_def Let_def split: prod.splits)

lemma hydrateConnection_counts:
  "lookups (hydrateConnection X reads cid options) =
     fst (snd (hydrate_loop reads (hydrate_timeout options) 0 (attempts options)))"
  "waits (hydrateConnection X reads cid options) =
     snd (snd (hydrate_loop reads (hydrate_timeout options) 0 (attempts options)))"
  by (auto simp: hydrateConnection_def Let_def split: prod.splits)

text \<open>
  Claim C4. \<^verbatim>\<open>hydrateConnection\<close> sends at most \<open>retryCount + 1\<close> lookups, and
  sleeps the configured timeout after each lookup that found nothing. It throws
  \<^verbatim>\<open>ConnectionNotFoundError\<close> exactly when every one of the \<open>retryCount + 1\<close> lookups
  finds nothing, or the first lookup that finds a row finds one whose ttl has elapsed;
  otherwise it returns the row of the first successful lookup, as it is stored.
\<close>

theorem hydrateConnection_retries_and_expiry:
  "lookups (hydrateConnection X reads cid options) \<le> attempts options
   \<and> (\<forall>w \<in> set (waits (hydrateConnection X reads cid options)). w = hydrate_timeout options)
   \<and> ((\<exists>e. outcome (hydrateConnection X reads cid options) = Inl e) \<longleftrightarrow>
        ((\<forall>j. j < attempts options \<longrightarrow> reads j = None)
         \<or> (\<exists>j row. j < attempts options \<and> reads j = Some row
               \<and> (\<forall>l. l < j \<longrightarrow> reads l = None) \<and> X (ttl row))))
   \<and> (\<forall>e. outcome (hydrateConnection X reads cid options) = Inl e
          \<longrightarrow> e = ConnectionNotFoundError cid)
   \<and> (\<forall>row. outcome (hydrateConnection X reads cid options) = Inr row \<longrightarrow>
         (\<exists>j. j < attempts options \<and> reads j = Some row
              \<and> (\<forall>l. l < j \<longrightarrow> reads l = None) \<and> \<not> X (ttl row)
              \<and> lookups (hydrateConnection X reads cid options) = Suc j
              \<and> waits (hydrateConnection X reads cid options)
                    = replicate j (hydrate_timeout options)))"
proof -
  let ?L = "hydrate_loop reads (hydrate_timeout options) 0 (attempts options)"
  let ?H = "hydrateConnection X reads cid options"
  show ?thesis
  proof (cases "fst ?L")
    case None
    then have all: "\<forall>j. j < attempts options \<longrightarrow> reads j = None"
      using hydrate_loop_None_iff [of reads "hydrate_timeout options" 0 "attempts options"]
      by simp
    have out: "outcome ?H = Inl (ConnectionNotFoundError cid)"
      using None by (rule hydrateConnection_missing)
    have cnt: "lookups ?H = attempts options"
      "waits ?H = replicate (attempts options) (hydrate_timeout options)"
      using hydrate_loop_None_waits [OF None] by (simp_all add: hydrateConnection_counts)
    show ?thesis using all out cnt by simp
  next
    case (Some row)
    from hydrate_loop_Some [OF Some] obtain j where j:
      "j < attempts options" "reads j = Some row" "\<forall>l. l < j \<longrightarrow> reads l = None"
      "lookups ?H = Suc j" "waits ?H = replicate j (hydrate_timeout options)"
      by (auto simp: hydrateConnection_counts)
    have out: "outcome ?H = (if X (ttl row) then Inl (ConnectionNotFoundError cid) else Inr row)"
      using Some by (rule hydrateConnection_found)
    have uniq: "j' = j \<and> row' = row"
      if "j' < attempts options" "reads j' = Some row'" "\<forall>l. l < j' \<longrightarrow> reads l = None"
      for j' row'
    proof -
      have "\<not> j' < j" using j(3) that(2) by auto
      moreover have "\<not> j < j'" using that(3) j(2) by auto
      ultimately have "j' = j" by simp
      then show ?thesis using that(2) j(2) by simp
    qed
    have notall: "\<not> (\<forall>j. j < attempts options \<longrightarrow> reads j = None)"
      using j(1,2) by auto
    show ?thesis
    proof (cases "X (ttl row)")
      case True
      then have o: "outcome ?H = Inl (ConnectionNotFoundError cid)" using out by simp
      have "\<exists>j row. j < attempts options \<and> reads j = Some row
               \<and> (\<forall>l. l < j \<longrightarrow> reads l = None) \<and> X (ttl row)"
        using j(1,2,3) True by blast
      then show ?thesis using o j(1,4,5) by simp
    next
      case False
      then have o: "outcome ?H = Inr row" using out by simp
      have no: "\<not> (\<exists>j row. j < attempts options \<and> reads j = Some row
               \<and> (\<forall>l. l < j \<longrightarrow> reads l = None) \<and> X (ttl row))"
        using uniq False by blast
      have ex: "\<exists>j. j < attempts options \<and> reads j = Some row
              \<and> (\<forall>l. l < j \<longrightarrow> reads l = None) \<and> \<not> X (ttl row)
              \<and> lookups ?H = Suc j \<and> waits ?H = replicate j (hydrate_timeout options)"
        using j False by blast
      show ?thesis using o no notall ex j(1,4,5) by simp
    qed
  qed
qed

theorem hydrateConnection_retries_and_expiry_witness:
  "outcome (hydrateConnection expired_at_1000 lagging_reads ''c1''
              \<lparr> retryCount = Some 3, timeout = Some 20 \<rparr>) = Inr w_row
   \<and> lookups (hydrateConnection expired_at_1000 lagging_reads ''c1''
              \<lparr> retryCount = Some 3, timeout = Some 20 \<rparr>) = 3
   \<and> waits (hydrateConnection expired_at_1000 lagging_reads ''c1''
              \<lparr> retryCount = Some 3, timeout = Some 20 \<rparr>) = [20, 20]
   \<and> attempts \<lparr> retryCount = Some 3, timeout = Some 20 \<rparr> = 4"
proof -
  let ?o = "\<lparr> retryCount = Some 3, timeout = Some 20 \<rparr>"
  let ?H = "hydrateConnection expired_at_1000 lagging_reads ''c1'' ?o"
  note T = hydrateConnection_retries_and_expiry [of expired_at_1000 lagging_reads "''c1''" ?o]
  have a: "attempts ?o = 4" by (simp add: attempts_def hydrate_retryCount_def)
  have t: "hydrate_timeout ?o = 20" by (simp add: hydrate_timeout_def)
  have nX: "\<not> expired_at_1000 (ttl w_row)" by (simp add: w_row_def expired_at_1000_def)
  have "\<not> (\<forall>j. j < attempts ?o \<longrightarrow> lagging_reads j = None)"
    unfolding a by (auto simp: lagging_reads_def intro: exI [of _ 2])
  moreover have "\<not> (\<exists>j row. j < attempts ?o \<and> lagging_reads j = Some row
               \<and> (\<forall>l. l < j \<longrightarrow> lagging_reads l = None) \<and> expired_at_1000 (ttl row))"
    using nX by (auto simp: lagging_reads_def split: if_splits)
  ultimately have "\<not> (\<exists>e. outcome ?H = Inl e)" using T by blast
  then obtain r where r: "outcome ?H = Inr r" by (cases "outcome ?H") auto
  with T obtain j where j: "lagging_reads j = Some r" "lookups ?H = Suc j"
     "waits ?H = replicate j (hydrate_timeout ?o)" by blast
  from j(1) have "j = 2 \<and> r = w_row" by (auto simp: lagging_reads_def split: if_splits)
  then show ?thesis using r j a t by (simp add: numeral_2_eq_2)
qed

section \<open>Registration\<close>

lemma hydrate_loop_first_hit:
  "reads i = Some row \<Longrightarrow> hydrate_loop reads tmo i (Suc n) = (Some row, 1, [])"
  by simp

lemma hydrate_settled_table:
  assumes "v = Some item" and "0 < attempts options"
  shows "outcome (hydrateConnection X (\<lambda>i. v) cid options)
           = (if X (ttl item) then Inl (ConnectionNotFoundError cid) else Inr item)"
    and "lookups (hydrateConnection X (\<lambda>i. v) cid options) = 1"
    and "waits (hydrateConnection X (\<lambda>i. v) cid options) = []"
proof -
  from assms(2) obtain n where n: "attempts options = Suc n" by (cases "attempts options") auto
  have L: "hydrate_loop (\<lambda>i. v) (hydrate_timeout options) 0 (attempts options)
             = (Some item, 1, [])"
    unfolding n using assms(1) by (rule hydrate_loop_first_hit)
  show "outcome (hydrateConnection X (\<lambda>i. v) cid options)
           = (if X (ttl item) then Inl (ConnectionNotFoundError cid) else Inr item)"
    using hydrateConnection_found [of "\<lambda>i. v" options item X cid] L by simp
  show "lookups (hydrateConnection X (\<lambda>i. v) cid options) = 1"
    "waits (hydrateConnection X (\<lambda>i. v) cid options) = []"
    using L by (simp_all add: hydrateConnection_counts)
qed

lemma hydrate_returns_a_read:
  assumes "outcome (hydrateConnection X reads cid options) = Inr row"
  shows "\<exists>j. reads j = Some row"
proof (cases "fst (hydrate_loop reads (hydrate_timeout options) 0 (attempts options))")
  case None
  from hydrateConnection_missing [OF None, of X cid] assms show ?thesis by simp
next
  case (Some r)
  from hydrateConnection_found [OF Some, of X cid] assms have "r = row"
    by (simp split: if_splits)
  with hydrate_loop_Some [OF Some] show ?thesis by blast
qed

text \<open>
  Claim C7. A \<^verbatim>\<open>hydrateConnection\<close> that reads the table as \<^verbatim>\<open>registerConnection\<close>
  left it, with the lease it wrote not yet elapsed, returns a connection whose data is the
  registered data \<^verbatim>\<open>{ endpoint, context: {}, isInitialized: false }\<close>, at the first lookup.
\<close>

theorem hydrate_after_register:
  assumes "registerConnection computeTTL cfg_ttl date cid ep tbl = (c, tbl')"
    and "\<not> X (case cfg_ttl of None \<Rightarrow> None | Some t \<Rightarrow> Some (computeTTL t))"
    and "0 < attempts options"
  shows "\<exists>row. outcome (hydrateConnection X (\<lambda>i. tbl' cid) cid options) = Inr row
           \<and> data row = data c
           \<and> data row = \<lparr> endpoint = ep, conn_context = [], isInitialized = False \<rparr>
           \<and> conn_id row = cid
           \<and> lookups (hydrateConnection X (\<lambda>i. tbl' cid) cid options) = 1
           \<and> waits (hydrateConnection X (\<lambda>i. tbl' cid) cid options) = []"
proof -
  let ?item = "\<lparr> conn_id = cid,
                  data = \<lparr> endpoint = ep, conn_context = [], isInitialized = False \<rparr>,
                  ttl = (case cfg_ttl of None \<Rightarrow> None | Some t \<Rightarrow> Some (computeTTL t)),
                  createdAt = Some date \<rparr>"
  from assms(1) have c: "data c = \<lparr> endpoint = ep, conn_context = [], isInitialized = False \<rparr>"
    and t: "tbl' cid = Some ?item"
    by (auto simp: registerConnection_def Let_def)
  have "outcome (hydrateConnection X (\<lambda>i. tbl' cid) cid options) = Inr ?item"
    using hydrate_settled_table(1) [OF t assms(3), of X] assms(2) by simp
  moreover have "lookups (hydrateConnection X (\<lambda>i. tbl' cid) cid options) = 1"
    "waits (hydrateConnection X (\<lambda>i. tbl' cid) cid options) = []"
    using hydrate_settled_table(2,3) [OF t assms(3)] by simp_all
  ultimately show ?thesis using c by simp
qed

theorem hydrate_after_register_witness:
  "\<exists>row. outcome (hydrateConnection expired_at_1000
             (\<lambda>i. snd (registerConnection lease_at_1000 (Some 7200) ''d'' ''c1'' ''wss://x'' Map.empty) ''c1'')
             ''c1'' \<lparr> retryCount = None, timeout = None \<rparr>) = Inr row
         \<and> data row = \<lparr> endpoint = ''wss://x'', conn_context = [], isInitialized = False \<rparr>"
proof -
  let ?R = "registerConnection lease_at_1000 (Some 7200) ''d'' ''c1'' ''wss://x'' Map.empty"
  have 1: "?R = (fst ?R, snd ?R)" by simp
  have 2: "\<not> expired_at_1000 (case Some 7200 of None \<Rightarrow> None | Some t \<Rightarrow> Some (lease_at_1000 t))"
    by (simp add: expired_at_1000_def lease_at_1000_def)
  have 3: "0 < attempts \<lparr> retryCount = None, timeout = None \<rparr>"
    by (simp add: attempts_def hydrate_retryCount_def)
  from hydrate_after_register [where computeTTL = lease_at_1000 and X = expired_at_1000, OF 1 2 3]
  show ?thesis by blast
qed

text \<open>
  Claim C10. The value \<^verbatim>\<open>registerConnection\<close> returns has \<^verbatim>\<open>id\<close> and
  \<^verbatim>\<open>data\<close> only: no \<^verbatim>\<open>ttl\<close> and no \<^verbatim>\<open>createdAt\<close>. The item it wrote has
  \<^verbatim>\<open>createdAt\<close> and, when the lease is enabled, the computed \<^verbatim>\<open>ttl\<close>, so whatever a
  later \<^verbatim>\<open>hydrateConnection\<close> of that table returns differs from the returned value.
\<close>

theorem registerConnection_returns_id_and_data_only:
  assumes "registerConnection computeTTL cfg_ttl date cid ep tbl = (c, tbl')"
  shows "c = \<lparr> conn_id = cid,
               data = \<lparr> endpoint = ep, conn_context = [], isInitialized = False \<rparr>,
               ttl = None, createdAt = None \<rparr>
         \<and> (\<exists>item. tbl' cid = Some item \<and> createdAt item = Some date
               \<and> ttl item = map_option computeTTL cfg_ttl \<and> item \<noteq> c)
         \<and> (\<forall>row. outcome (hydrateConnection X (\<lambda>i. tbl' cid) cid options) = Inr row \<longrightarrow>
               row \<noteq> c \<and> createdAt row = Some date \<and> ttl row = map_option computeTTL cfg_ttl
               \<and> conn_id row = conn_id c \<and> data row = data c)"
proof -
  let ?item = "\<lparr> conn_id = cid,
                  data = \<lparr> endpoint = ep, conn_context = [], isInitialized = False \<rparr>,
                  ttl = map_option computeTTL cfg_ttl,
                  createdAt = Some date \<rparr>"
  have m: "(case cfg_ttl of None \<Rightarrow> None | Some t \<Rightarrow> Some (computeTTL t)) = map_option computeTTL cfg_ttl"
    by (cases cfg_ttl) simp_all
  from assms have c: "c = \<lparr> conn_id = cid,
               data = \<lparr> endpoint = ep, conn_context = [], isInitialized = False \<rparr>,
               ttl = None, createdAt = None \<rparr>"
    and t: "tbl' cid = Some ?item"
    by (auto simp: registerConnection_def Let_def m)
  have ne: "?item \<noteq> c" unfolding c by simp
  have "row = ?item" if "outcome (hydrateConnection X (\<lambda>i. tbl' cid) cid options) = Inr row" for row
  proof -
    from hydrate_returns_a_read [OF that] have "tbl' cid = Some row" by blast
    with t show ?thesis by simp
  qed
  then have "\<forall>row. outcome (hydrateConnection X (\<lambda>i. tbl' cid) cid options) = Inr row \<longrightarrow>
               row \<noteq> c \<and> createdAt row = Some date \<and> ttl row = map_option computeTTL cfg_ttl
               \<and> conn_id row = conn_id c \<and> data row = data c"
    using ne c by auto
  then show ?thesis using c t ne by simp
qed

theorem registerConnection_returns_id_and_data_only_witness:
  "ttl (fst (registerConnection lease_at_1000 (Some 7200) ''d'' ''c1'' ''wss://x'' Map.empty)) = None
   \<and> createdAt (fst (registerConnection lease_at_1000 (Some 7200) ''d'' ''c1'' ''wss://x'' Map.empty)) = None
   \<and> (\<exists>row. outcome (hydrateConnection expired_at_1000
             (\<lambda>i. snd (registerConnection lease_at_1000 (Some 7200) ''d'' ''c1'' ''wss://x'' Map.empty) ''c1'')
             ''c1'' \<lparr> retryCount = None, timeout = None \<rparr>) = Inr row
         \<and> row \<noteq> fst (registerConnection lease_at_1000 (Some 7200) ''d'' ''c1'' ''wss://x'' Map.empty)
         \<and> ttl row = Some 8200 \<and> createdAt row = Some ''d'')"
proof -
  let ?R = "registerConnection lease_at_1000 (Some 7200) ''d'' ''c1'' ''wss://x'' Map.empty"
  let ?o = "\<lparr> retryCount = None, timeout = None \<rparr>"
  have 1: "?R = (fst ?R, snd ?R)" by simp
  note T = registerConnection_returns_id_and_data_only
    [where computeTTL = lease_at_1000 and X = expired_at_1000 and options = ?o, OF 1]
  from T obtain item where item: "snd ?R ''c1'' = Some item" "ttl item = Some 8200"
    by (auto simp: lease_at_1000_def)
  have 3: "0 < attempts ?o" by (simp add: attempts_def hydrate_retryCount_def)
  have "outcome (hydrateConnection expired_at_1000 (\<lambda>i. snd ?R ''c1'') ''c1'' ?o) = Inr item"
    using hydrate_settled_table(1) [OF item(1) 3, of expired_at_1000] item(2)
    by (simp add: expired_at_1000_def)
  with T show ?thesis by (auto simp: lease_at_1000_def)
qed

section \<open>Subscribing\<close>












text \<open>
  The batch is not a transaction. When the store leaves the put for the Subscriptions
  table unprocessed, \<^verbatim>\<open>subscribe\<close> returns normally with the row written to the
  SubscriptionOperations table only: the two tables no longer agree.
\<close>

lemma subscribe_unprocessed_put_diverges:
  "fst (subscribe lease_at_1000 (Some 7200) ([(''A'', ''c1:op1'')], []) [''A''] conn_c1 oper_op1 empty_store)
     = None
   \<and> \<not> cross_index_invariant
       (snd (subscribe lease_at_1000 (Some 7200) ([(''A'', ''c1:op1'')], []) [''A''] conn_c1 oper_op1
               empty_store))"
  by (simp add: subscribe_def batch_put_def Let_def sub_key_def so_key_def empty_store_def
      cross_index_invariant_def generateSubscriptionId_def conn_c1_def oper_op1_def put_row_def)

section \<open>Unsubscribing one event\<close>

lemma key_of_marshalled_strings:
  "key_of_attrs (marshall [(''event'', JString e), (''subscriptionId'', JString i)]) = Some (e, i)"
  "key_of_attrs (marshall [(''subscriptionId'', JString i), (''event'', JString e)]) = Some (e, i)"
  by (simp_all add: key_of_attrs_def marshall_def)

lemma unsubscribe_eq:
  "unsubscribe commit sb s =
     (if commit then
        (None, \<lparr> subscriptions = delete_row sub_key
                    (subscriber_event sb,
                     generateSubscriptionId (conn_id (subscriber_connection sb)) (subscriber_operationId sb))
                    (subscriptions s),
                 subscriptionOperations = delete_row so_key
                    (subscriber_event sb,
                     generateSubscriptionId (conn_id (subscriber_connection sb)) (subscriber_operationId sb))
                    (subscriptionOperations s) \<rparr>)
      else (Some TransactionCanceledException, s))"
  by (simp add: unsubscribe_def transact_delete_def Let_def key_of_marshalled_strings)

lemma entries_after_delete:
  assumes "\<And>x. k (entry x) = key x"
  shows "entry ` set (delete_row key a tbl) = {e \<in> entry ` set tbl. k e \<noteq> a}"
  using assms by (auto simp: delete_row_def)

lemma delete_both_preserves_invariant:
  assumes "cross_index_invariant s"
  shows "cross_index_invariant \<lparr> subscriptions = delete_row sub_key a (subscriptions s),
            subscriptionOperations = delete_row so_key a (subscriptionOperations s) \<rparr>"
proof -
  have 1: "sub_entry ` set (delete_row sub_key a (subscriptions s))
             = {e \<in> sub_entry ` set (subscriptions s). (fst (snd e), fst e) \<noteq> a}"
    by (rule entries_after_delete) (simp add: sub_entry_def sub_key_def)
  have 2: "so_entry ` set (delete_row so_key a (subscriptionOperations s))
             = {e \<in> so_entry ` set (subscriptionOperations s). (fst (snd e), fst e) \<noteq> a}"
    by (rule entries_after_delete) (simp add: so_entry_def so_key_def)
  show ?thesis using assms by (simp add: cross_index_invariant_def 1 2)
qed

text \<open>
  Claim C5. \<^verbatim>\<open>unsubscribe\<close> sends one transaction with a delete of the key
  (event, \<^verbatim>\<open>connection.id + ":" + operationId\<close>) for each table. Either the
  transaction commits and the rows under that key are gone from both tables, or it is
  cancelled and the store is as it was; in both cases tables that agreed still agree, and
  the rows under every other key are the same as before, in both tables.
\<close>

theorem unsubscribe_deletes_one_pair_atomically:
  "(unsubscribe commit sb s =
      (None, \<lparr> subscriptions = filter (\<lambda>r. sub_key r \<noteq>
                    (subscriber_event sb,
                     generateSubscriptionId (conn_id (subscriber_connection sb)) (subscriber_operationId sb)))
                    (subscriptions s),
               subscriptionOperations = filter (\<lambda>r. so_key r \<noteq>
                    (subscriber_event sb,
                     generateSubscriptionId (conn_id (subscriber_connection sb)) (subscriber_operationId sb)))
                    (subscriptionOperations s) \<rparr>)
    \<or> unsubscribe commit sb s = (Some TransactionCanceledException, s))
   \<and> (commit \<longrightarrow> fst (unsubscribe commit sb s) = None)
   \<and> (cross_index_invariant s \<longrightarrow> cross_index_invariant (snd (unsubscribe commit sb s)))
   \<and> filter (\<lambda>r. sub_key r \<noteq>
                    (subscriber_event sb,
                     generateSubscriptionId (conn_id (subscriber_connection sb)) (subscriber_operationId sb)))
         (subscriptions (snd (unsubscribe commit sb s)))
       = filter (\<lambda>r. sub_key r \<noteq>
                    (subscriber_event sb,
                     generateSubscriptionId (conn_id (subscriber_connection sb)) (subscriber_operationId sb)))
         (subscriptions s)
   \<and> filter (\<lambda>r. so_key r \<noteq>
                    (subscriber_event sb,
                     generateSubscriptionId (conn_id (subscriber_connection sb)) (subscriber_operationId sb)))
         (subscriptionOperations (snd (unsubscribe commit sb s)))
       = filter (\<lambda>r. so_key r \<noteq>
                    (subscriber_event sb,
                     generateSubscriptionId (conn_id (subscriber_connection sb)) (subscriber_operationId sb)))
         (subscriptionOperations s)"
proof (cases commit)
  case True
  show ?thesis
    using True delete_both_preserves_invariant [of s]
    by (simp add: unsubscribe_eq delete_row_def)
next
  case False
  then show ?thesis by (simp add: unsubscribe_eq)
qed

theorem unsubscribe_deletes_one_pair_atomically_witness:
  "cross_index_invariant store_c1_AB
   \<and> fst (unsubscribe True \<lparr> subscriber_connection = conn_c1, subscriber_event = ''A'',
                              subscriber_operationId = ''op1'' \<rparr> store_c1_AB) = None
   \<and> cross_index_invariant
         (snd (unsubscribe True \<lparr> subscriber_connection = conn_c1, subscriber_event = ''A'',
                                  subscriber_operationId = ''op1'' \<rparr> store_c1_AB))
   \<and> map sub_key (subscriptions
         (snd (unsubscribe True \<lparr> subscriber_connection = conn_c1, subscriber_event = ''A'',
                                  subscriber_operationId = ''op1'' \<rparr> store_c1_AB)))
       = [(''B'', ''c1:op1'')]
   \<and> map so_key (subscriptionOperations
         (snd (unsubscribe True \<lparr> subscriber_connection = conn_c1, subscriber_event = ''A'',
                                  subscriber_operationId = ''op1'' \<rparr> store_c1_AB)))
       = [(''B'', ''c1:op1'')]"
proof -
  let ?sb = "\<lparr> subscriber_connection = conn_c1, subscriber_event = ''A'',
               subscriber_operationId = ''op1'' \<rparr>"
  have 0: "cross_index_invariant store_c1_AB"
    by (simp add: cross_index_invariant_def store_c1_AB_def sub_row_def so_row_def
        sub_entry_def so_entry_def)
  note T = unsubscribe_deletes_one_pair_atomically [of True ?sb store_c1_AB]
  have sid: "generateSubscriptionId (conn_id (subscriber_connection ?sb)) (subscriber_operationId ?sb)
               = ''c1:op1''"
    by (simp add: generateSubscriptionId_def conn_c1_def)
  from T have ok: "fst (unsubscribe True ?sb store_c1_AB) = None"
    and inv: "cross_index_invariant (snd (unsubscribe True ?sb store_c1_AB))"
    using 0 by simp_all
  from T ok have eq: "unsubscribe True ?sb store_c1_AB =
      (None, \<lparr> subscriptions = filter (\<lambda>r. sub_key r \<noteq> (''A'', ''c1:op1'')) (subscriptions store_c1_AB),
               subscriptionOperations = filter (\<lambda>r. so_key r \<noteq> (''A'', ''c1:op1''))
                    (subscriptionOperations store_c1_AB) \<rparr>)"
    unfolding sid by auto
  have "map sub_key (subscriptions (snd (unsubscribe True ?sb store_c1_AB))) = [(''B'', ''c1:op1'')]"
    unfolding eq by (simp add: store_c1_AB_def sub_row_def sub_key_def)
  moreover have "map so_key (subscriptionOperations (snd (unsubscribe True ?sb store_c1_AB)))
       = [(''B'', ''c1:op1'')]"
    unfolding eq by (simp add: store_c1_AB_def so_row_def so_key_def)
  ultimately show ?thesis using 0 ok inv by simp
qed

section \<open>Fan-out pages\<close>

lemma expired_rows_facts:
  "length (expired_rows n) = n"
  "filter (live_at 1000) (expired_rows n) = []"
  "filter (\<lambda>r. sub_event r = ''A'') (expired_rows n) = expired_rows n"
  by (simp_all add: expired_rows_def live_at_def sub_row_def filter_empty_conv)

text \<open>
  On a small partition the iterator yields one page: after
  \<^verbatim>\<open>subscribe(["A", "B"], c1, op1)\<close>, the subscribers of A are the one row of c1:op1.
\<close>

lemma subscribersByEvent_one_page:
  "subscribersByEvent event_name 1000 store_c1_AB \<lparr> event_name = ''A'', event_payload = ''hi'' \<rparr>
     = [[sub_row ''A'' ''c1'' ''op1'' (Some 8200)]]"
proof -
  have 1: "subscribersByEvent_next ''A'' 1000 store_c1_AB \<lparr> ExclusiveStartKey = None, done_flag = False \<rparr>
             = (([sub_row ''A'' ''c1'' ''op1'' (Some 8200)], False),
                \<lparr> ExclusiveStartKey = None, done_flag = True \<rparr>)"
    by (simp add: subscribersByEvent_next_def read_page_def store_c1_AB_def sub_row_def live_at_def Let_def)
  have 2: "subscribersByEvent_next ''A'' 1000 store_c1_AB \<lparr> ExclusiveStartKey = None, done_flag = True \<rparr>
             = (([], True), \<lparr> ExclusiveStartKey = None, done_flag = True \<rparr>)"
    by (simp add: subscribersByEvent_next_def)
  show ?thesis
    unfolding subscribersByEvent_def
    by (simp add: drain.simps [of "''A''" 1000 store_c1_AB] 1 2)
qed

text \<open>
  Claim C1 says that the sequence of pages ends only when a page comes without a
  continuation cursor. On the fifty-one rows above, at second 1000, the first page
  evaluates the fifty expired rows: it has no item and it has a continuation cursor. The
  iterator answers \<^verbatim>\<open>done: true\<close> (\<^verbatim>\<open>done: value.length === 0\<close>), so the sequence
  is empty, and the live subscription of c1 is never produced.
\<close>

theorem subscribersByEvent_stops_at_empty_page:
  "subscribersByEvent event_name 1000 store_51 \<lparr> event_name = ''A'', event_payload = ''hi'' \<rparr> = []
   \<and> sub_row ''A'' ''c1'' ''op1'' (Some 8200) \<in> set (subscriptions store_51)
   \<and> live_at 1000 (sub_row ''A'' ''c1'' ''op1'' (Some 8200))"
proof -
  have p: "filter (\<lambda>r. sub_event r = ''A'') (subscriptions store_51) = subscriptions store_51"
    by (simp add: store_51_def expired_rows_facts sub_row_def)
  have ne: "expired_rows 50 \<noteq> []" using expired_rows_facts(1) [of 50] by auto
  have "read_page sub_key None 50 (live_at 1000) (subscriptions store_51)
          = ([], Some (sub_key (last (expired_rows 50))))"
    by (simp add: read_page_def Let_def store_51_def expired_rows_facts ne)
  then have "subscribersByEvent_next ''A'' 1000 store_51 \<lparr> ExclusiveStartKey = None, done_flag = False \<rparr>
               = (([], True), \<lparr> ExclusiveStartKey = Some (sub_key (last (expired_rows 50))), done_flag = False \<rparr>)"
    by (simp add: subscribersByEvent_next_def p)
  then have "subscribersByEvent event_name 1000 store_51 \<lparr> event_name = ''A'', event_payload = ''hi'' \<rparr> = []"
    by (simp add: subscribersByEvent_def drain.simps)
  then show ?thesis by (simp add: store_51_def live_at_def sub_row_def)
qed

section \<open>Bulk unsubscribing\<close>

lemma sort_key_sorted_id: "sorted (map f xs) \<Longrightarrow> sort_key f xs = xs"
  by (induction xs) (auto simp: insort_is_Cons)

lemma store_13_walk:
  "sort_key (\<lambda>r. scan_position h (sub_key r)) (subscriptions store_13) = subscriptions store_13"
  by (rule sort_key_sorted_id)
     (simp add: store_13_def other_ids_def sub_row_def sub_key_def scan_position_def
        less_eq_char_def less_char_def)

text \<open>
  Claim C2 says that \<^verbatim>\<open>unsubscribeAllByConnectionId\<close> goes on while a continuation
  cursor remains. On the thirteen rows above, whatever the store's hash, the first page of
  the scan evaluates the twelve rows of the other connections: it has no item and it has
  a continuation cursor. The call returns there
  (\<^verbatim>\<open>if (Items == null || !Items.length) return\<close>) without a delete request, and the row
  of c1 stays in both tables.
\<close>

theorem unsubscribeAll_stops_at_empty_page:
  "unsubscribeAllByConnectionId h u ''c1'' store_13 = (None, store_13, [])
   \<and> sub_row ''A'' ''c1'' ''op1'' None \<in> set (subscriptions store_13)
   \<and> so_row ''A'' ''c1'' ''op1'' None \<in> set (subscriptionOperations store_13)
   \<and> snd (scan_page h sub_key None 12 (\<lambda>r. prefix ''c1'' (sub_subscriptionId r)) (subscriptions store_13))
       = Some (''A'', ''b12:op1'')"
proof -
  have page: "scan_page h sub_key None 12 (\<lambda>r. prefix ''c1'' (sub_subscriptionId r))
                (subscriptions store_13) = ([], Some (''A'', ''b12:op1''))"
    unfolding scan_page_def store_13_walk
    by (simp add: store_13_def other_ids_def sub_row_def sub_key_def Let_def)
  have "unsubscribeAllByConnectionId h u ''c1'' store_13 = (None, store_13, [])"
    by (simp add: unsubscribeAllByConnectionId_def unsubscribeAll_loop.simps page)
  then show ?thesis using page
    by (simp add: store_13_def)
qed

lemma key_of_marshalled_attribute_objects:
  "key_of_attrs (marshall [(''event'', string_attribute e), (''subscriptionId'', string_attribute i)]) = None"
  "key_of_attrs (marshall [(''subscriptionId'', string_attribute i), (''event'', string_attribute e)]) = None"
  by (simp_all add: key_of_attrs_def marshall_def string_attribute_def)

text \<open>
  The store accepts no delete batch that is built from the items of a response as they
  are: without an item the request lists are empty, and with one the keys do not match
  the key schema.
\<close>

lemma batch_delete_of_raw_items:
  "batch_delete u
     (map (\<lambda>item. marshall [(''event'', sub_item_event item),
                            (''subscriptionId'', sub_item_subscriptionId item)]) Items)
     ks s = Inl ValidationException"
proof (cases Items)
  case Nil
  then show ?thesis by (simp add: batch_delete_def)
next
  case (Cons i rest)
  then show ?thesis
    by (cases i) (simp add: batch_delete_def key_of_marshalled_attribute_objects)
qed

lemma batch_delete_of_raw_operation_items:
  "batch_delete u
     (map (\<lambda>item. marshall [(''event'', so_item_event item),
                            (''subscriptionId'', so_item_subscriptionId item)]) Items)
     ks s = Inl ValidationException"
proof (cases Items)
  case Nil
  then show ?thesis by (simp add: batch_delete_def)
next
  case (Cons i rest)
  then show ?thesis
    by (cases i) (simp add: batch_delete_def key_of_marshalled_attribute_objects)
qed

text \<open>
  So a cleanup ends in its first round: without a delete request when the first page of
  the scan has no item, and otherwise rejected, after the one batch built from that page.
\<close>

lemma unsubscribeAll_loop_result:
  "unsubscribeAll_loop h u connectionId cursor s =
     (case fst (scan_page h sub_key cursor 12 (\<lambda>r. prefix connectionId (sub_subscriptionId r))
                  (subscriptions s)) of
        [] \<Rightarrow> (None, s, [])
      | i # rest \<Rightarrow>
          (Some ValidationException, s,
           [(map (\<lambda>item. marshall [(''event'', sub_item_event item),
                                   (''subscriptionId'', sub_item_subscriptionId item)]) (i # rest),
             map (\<lambda>item. marshall [(''subscriptionId'', sub_item_subscriptionId item),
                                   (''event'', sub_item_event item)]) (i # rest))]))"
proof (cases "scan_page h sub_key cursor 12 (\<lambda>r. prefix connectionId (sub_subscriptionId r)) (subscriptions s)")
  case (Pair Items lek)
  show ?thesis
  proof (cases Items)
    case Nil
    with Pair show ?thesis by (simp add: unsubscribeAll_loop.simps)
  next
    case (Cons i rest)
    with Pair batch_delete_of_raw_items [of u "i # rest"] show ?thesis
      by (simp add: unsubscribeAll_loop.simps Let_def)
  qed
qed










text \<open>Ids of one fixed width are never a prefix of another id's composite key.\<close>

lemma fixed_width_ids_are_prefix_free:
  assumes "length c1 = length c2" and "c1 \<noteq> c2"
  shows "\<not> prefix c1 (generateSubscriptionId c2 oid)"
proof
  assume "prefix c1 (generateSubscriptionId c2 oid)"
  then obtain zs where "c2 @ '':'' @ oid = c1 @ zs"
    by (auto simp: prefix_def generateSubscriptionId_def)
  with assms(1) have "c1 = c2" by (simp add: append_eq_append_conv)
  with assms(2) show False by simp
qed

text \<open>
  In general: \<^verbatim>\<open>unsubscribeOperation\<close> rejects, whatever the tables hold, and never
  changes a table.
\<close>

lemma unsubscribeOperation_result:
  "unsubscribeOperation u connectionId opId s = (Some ValidationException, s)"
  by (simp add: unsubscribeOperation_def Let_def batch_delete_of_raw_operation_items)

text \<open>
  Claim C6 says that \<^verbatim>\<open>unsubscribeOperation\<close> removes all rows of the operation from
  both tables. On the tables left by \<^verbatim>\<open>subscribe(["A", "B"], c1, op1)\<close>, the query finds
  the two rows of c1:op1; the delete keys are marshalled from the attribute values of the
  items (\<^verbatim>\<open>{ event: { M: { S: { S: "A" } } }, ... }\<close>), the store rejects the batch, the
  call rejects, and both rows are still in both tables.
\<close>

theorem unsubscribeOperation_rejected:
  "unsubscribeOperation u ''c1'' ''op1'' store_c1_AB = (Some ValidationException, store_c1_AB)
   \<and> filter (\<lambda>r. so_subscriptionId r = generateSubscriptionId ''c1'' ''op1'')
        (subscriptionOperations (snd (unsubscribeOperation u ''c1'' ''op1'' store_c1_AB)))
      = [so_row ''A'' ''c1'' ''op1'' (Some 8200), so_row ''B'' ''c1'' ''op1'' (Some 8200)]
   \<and> map sub_key (subscriptions (snd (unsubscribeOperation u ''c1'' ''op1'' store_c1_AB)))
      = [(''A'', ''c1:op1''), (''B'', ''c1:op1'')]"
  by (simp add: unsubscribeOperation_def batch_delete_def store_c1_AB_def so_row_def sub_row_def sub_key_def
       generateSubscriptionId_def key_of_marshalled_attribute_objects Let_def)

section \<open>Sending\<close>

lemma unregisterConnection_result:
  "unregisterConnection h u conn st =
     (fst (unsubscribeAllByConnectionId h u (conn_id conn) (subs st)),
      \<lparr> connections = (connections st)((conn_id conn) := None),
        subs = fst (snd (unsubscribeAllByConnectionId h u (conn_id conn) (subs st))) \<rparr>)"
  by (simp add: unregisterConnection_def split: prod.splits)

text \<open>
  What \<^verbatim>\<open>sendToConnection\<close> does, for every outcome of the send: it sends one
  \<^verbatim>\<open>PostToConnectionCommand\<close> and never rejects with the error of the transport. When
  the thrown value has \<^verbatim>\<open>statusCode\<close> 410 it calls \<^verbatim>\<open>unregisterConnection\<close> once and
  ends as that call ends: the row of the connection is deleted and
  \<^verbatim>\<open>unsubscribeAllByConnectionId\<close> has run on the subscription tables. On any other
  thrown value it writes one warning, leaves the tables alone and returns normally.
\<close>

lemma sendToConnection_result:
  "rejected (sendToConnection h u push conn st) \<noteq> Some (TransportError e)
   \<and> posts (sendToConnection h u push conn st) = 1
   \<and> ((\<exists>e. push = PushFailed e \<and> statusCode e = Some 410) \<longrightarrow>
         rejected (sendToConnection h u push conn st)
           = map_option StoreError (fst (unregisterConnection h u conn st))
         \<and> after (sendToConnection h u push conn st) = snd (unregisterConnection h u conn st)
         \<and> connections (after (sendToConnection h u push conn st)) (conn_id conn) = None
         \<and> subs (after (sendToConnection h u push conn st))
             = fst (snd (unsubscribeAllByConnectionId h u (conn_id conn) (subs st)))
         \<and> unregistered (sendToConnection h u push conn st) = 1
         \<and> warnings (sendToConnection h u push conn st) = 0)
   \<and> (\<not> (\<exists>e. push = PushFailed e \<and> statusCode e = Some 410) \<longrightarrow>
         rejected (sendToConnection h u push conn st) = None
         \<and> after (sendToConnection h u push conn st) = st
         \<and> unregistered (sendToConnection h u push conn st) = 0
         \<and> warnings (sendToConnection h u push conn st) = (if push = Delivered then 0 else 1))"
proof (cases push)
  case Delivered
  then show ?thesis by (simp add: sendToConnection_def)
next
  case (PushFailed x)
  show ?thesis
  proof (cases "statusCode x = Some 410")
    case True
    with PushFailed show ?thesis
      by (cases "fst (unsubscribeAllByConnectionId h u (conn_id conn) (subs st))")
         (simp_all add: sendToConnection_def unregisterConnection_result)
  next
    case False
    with PushFailed show ?thesis by (simp add: sendToConnection_def)
  qed
qed

text \<open>
  Claim C8 says that \<^verbatim>\<open>sendToConnection\<close> calls \<^verbatim>\<open>unregisterConnection\<close> when the
  push fails with the signal that the connection is gone for good. The client the source
  sends through gives that signal as a \<^verbatim>\<open>GoneException\<close>, whose status 410 is under
  \<^verbatim>\<open>$metadata.httpStatusCode\<close>; it has no \<^verbatim>\<open>statusCode\<close>, so the test
  \<^verbatim>\<open>e.statusCode === 410\<close> fails. For the registered connection c1 the call writes one
  warning and returns: \<^verbatim>\<open>unregisterConnection\<close> is not called and the row of c1 stays
  in the Connections table.
\<close>

theorem sendToConnection_keeps_gone_connection:
  "sendToConnection h u (PushFailed GoneException) conn_c1 registered_c1
     = \<lparr> rejected = None, after = registered_c1, posts = 1, warnings = 1, unregistered = 0 \<rparr>
   \<and> connections (after (sendToConnection h u (PushFailed GoneException) conn_c1 registered_c1)) ''c1''
       = Some w_row
   \<and> httpStatusCode GoneException = Some 410
   \<and> statusCode GoneException = None"
  by (simp add: sendToConnection_def GoneException_def registered_c1_def)

text \<open>
  A thrown value that does have \<^verbatim>\<open>statusCode\<close> 410 takes the other branch. An error of
  the store inside \<^verbatim>\<open>unregisterConnection\<close> is not caught there: the call in the
  \<^verbatim>\<open>catch\<close> block is awaited, so \<^verbatim>\<open>sendToConnection\<close> rejects with it.
\<close>

lemma sendToConnection_store_error_propagates:
  "rejected (sendToConnection hash_of_name all_processed
       (PushFailed \<lparr> error_name = ''Gone'', statusCode = Some 410, httpStatusCode = None \<rparr>) conn_c1
       \<lparr> connections = [''c1'' \<mapsto> w_row], subs = store_c1_AB \<rparr>)
     = Some (StoreError ValidationException)"
proof -
  have "fst (scan_page hash_of_name sub_key None 12 (\<lambda>r. prefix ''c1'' (sub_subscriptionId r))
          (subscriptions store_c1_AB))
     = [Item (sub_row ''A'' ''c1'' ''op1'' (Some 8200)), Item (sub_row ''B'' ''c1'' ''op1'' (Some 8200))]"
    by (simp add: scan_page_def store_c1_AB_def sub_row_def sub_key_def scan_position_def
        hash_of_name_def Let_def less_eq_char_def less_char_def)
  then show ?thesis
    by (simp add: sendToConnection_def unregisterConnection_def unsubscribeAllByConnectionId_def
        unsubscribeAll_loop_result conn_c1_def)
qed


end
